theory Spec2Isabelle
  imports Complex_Main
begin

section \<open>The data chunk of \<^verbatim>\<open>src/Train.cpp\<close>\<close>

text \<open>
  \<^verbatim>\<open>class DataChunk\<close> buffers raw lines and, after parsing, holds the feature
  vectors and the targets of the rows the dataset's row parser accepted. The three
  vectors are the fields the methods read and write; they keep their names without
  the trailing underscore, which a constant's name cannot end in. \<^verbatim>\<open>cfg_\<close> only gives the
  width of a feature vector and \<^verbatim>\<open>dataSet_\<close> only gives the row parser, which the
  functions below take as the parameter \<open>getRow\<close>; \<^verbatim>\<open>monitorPtr_\<close> is the latch
  of the thread pool.

  A \<^verbatim>\<open>double\<close> is a value of the type variable \<open>'d\<close>; a feature vector is a
  value of \<open>'fv\<close>, the \<^verbatim>\<open>cfg_.getNumFeatures()\<close> doubles of the scratch array
  \<^verbatim>\<open>farr\<close>. Nothing in this section computes with either.
\<close>

record ('d, 'fv) DataChunk =
  lines :: "string list"
  featureVectors :: "'fv list"
  targets :: "'d list"

text \<open>The constructor leaves the three vectors empty.\<close>

definition DataChunk_new :: "('d, 'fv) DataChunk" where
  "DataChunk_new = \<lparr>lines = [], featureVectors = [], targets = []\<rparr>"

text \<open>
  \<^verbatim>\<open>DataSet::getRow(line, &target, farr)\<close> is declared in \<^verbatim>\<open>DataSet.h\<close>. It
  returns whether the line is a well-formed row and, when it is, has written the
  target and the feature array (and the logged score, when asked for one). The model
  is a function from the line to the values written, \<open>None\<close> for a rejected line.
\<close>

type_synonym ('d, 'fv) getRow = "string \<Rightarrow> ('d \<times> 'fv \<times> 'd) option"

text \<open>
  \<^verbatim>\<open>DataSet::addVector(farr, target)\<close> is declared in \<^verbatim>\<open>DataSet.h\<close> too: it
  returns whether the dataset took the row. The dataset is a state of type \<open>'ds\<close>,
  and the model returns the answer with the state the call leaves.
\<close>

type_synonym ('d, 'fv, 'ds) addVector = "'ds \<Rightarrow> 'fv \<Rightarrow> 'd \<Rightarrow> bool \<times> 'ds"

datatype error = CheckFailed | OutOfRange

text \<open>\<^verbatim>\<open>bool addLine(const string& s)\<close>: the answer and the chunk afterwards.\<close>

definition addLine :: "string \<Rightarrow> ('d, 'fv) DataChunk \<Rightarrow> bool \<times> ('d, 'fv) DataChunk" where
  "addLine s c =
     (if s = [] then (False, c)
      else (True, c\<lparr>lines := lines c @ [s]\<rparr>))"

definition getLineBufferSize :: "('d, 'fv) DataChunk \<Rightarrow> nat" where
  "getLineBufferSize c = length (lines c)"

definition getSize :: "('d, 'fv) DataChunk \<Rightarrow> nat" where
  "getSize c = length (featureVectors c)"

text \<open>
  \<^verbatim>\<open>void parseLines()\<close>: the loop over \<^verbatim>\<open>lines_\<close>, with the chunk as its state.
  An accepted line pushes its target and its feature vector; a rejected line pushes
  nothing.
\<close>

fun parseLines_loop ::
  "('d, 'fv) getRow \<Rightarrow> string list \<Rightarrow> ('d, 'fv) DataChunk \<Rightarrow> ('d, 'fv) DataChunk" where
  "parseLines_loop getRow [] c = c"
| "parseLines_loop getRow (line # rest) c =
     (case getRow line of
        Some (target, farr, score) \<Rightarrow>
          parseLines_loop getRow rest
            (c\<lparr>targets := targets c @ [target],
               featureVectors := featureVectors c @ [farr]\<rparr>)
      | None \<Rightarrow> parseLines_loop getRow rest c)"

definition parseLines :: "('d, 'fv) getRow \<Rightarrow> ('d, 'fv) DataChunk \<Rightarrow> ('d, 'fv) DataChunk" where
  "parseLines getRow c = parseLines_loop getRow (lines c) c"

text \<open>
  \<^verbatim>\<open>size_t addToDataSet(DataSet* dataSet) const\<close>. The \<^verbatim>\<open>CHECK\<close> aborts the
  process when the two vectors differ in length. The loop runs \<open>i\<close> from 0 to
  \<open>sz\<close> (the local \<^verbatim>\<open>size\<close>); every stored feature vector fills \<^verbatim>\<open>farr\<close> entirely, so what
  \<^verbatim>\<open>addVector\<close> receives is the vector at index \<open>i\<close>. The loop is only entered
  with \<open>sz\<close> the length of both vectors, so both reads are in range.
\<close>

function addToDataSet_loop ::
  "('d, 'fv, 'ds) addVector \<Rightarrow> ('d, 'fv) DataChunk \<Rightarrow> nat \<Rightarrow> nat \<Rightarrow> 'ds \<Rightarrow> nat \<times> 'ds" where
  "addToDataSet_loop addVector c sz i dataSet =
     (if i < sz then
        (let fvec = featureVectors c ! i;
             r = addVector dataSet fvec (targets c ! i)
         in if \<not> fst r then (i, snd r)
            else addToDataSet_loop addVector c sz (Suc i) (snd r))
      else (sz, dataSet))"
  by pat_completeness auto
termination
  by (relation "measure (\<lambda>(addVector, c, sz, i, dataSet). sz - i)") auto

declare addToDataSet_loop.simps [simp del]

definition addToDataSet ::
  "('d, 'fv, 'ds) addVector \<Rightarrow> ('d, 'fv) DataChunk \<Rightarrow> 'ds \<Rightarrow> error + nat \<times> 'ds" where
  "addToDataSet addVector c dataSet =
     (if length (featureVectors c) \<noteq> length (targets c) then Inl CheckFailed
      else Inr (addToDataSet_loop addVector c (length (featureVectors c)) 0 dataSet))"

text \<open>
  For the statements about \<open>addToDataSet\<close>: the dataset after \<^verbatim>\<open>addVector\<close> has
  been called on the rows of index \<open>0\<close> to \<open>k - 1\<close> of the chunk, in this order,
  starting from \<open>ds\<close>.
\<close>

primrec offered ::
  "('d, 'fv, 'ds) addVector \<Rightarrow> ('d, 'fv) DataChunk \<Rightarrow> nat \<Rightarrow> 'ds \<Rightarrow> 'ds" where
  "offered addVector c 0 ds = ds"
| "offered addVector c (Suc k) ds =
     snd (addVector (offered addVector c k ds) (featureVectors c ! k) (targets c ! k))"

section \<open>Reading a stream into chunks\<close>

text \<open>
  \<^verbatim>\<open>const int CHUNK_SIZE = 2500\<close>, the chunk size \<^verbatim>\<open>main\<close> passes.
\<close>

definition CHUNK_SIZE :: nat where
  "CHUNK_SIZE = 2500"

text \<open>
  The first loop of \<^verbatim>\<open>readIntoDataChunks\<close>. The stream is the list of lines that
  successive \<^verbatim>\<open>getline\<close> calls return. The state is the output vector
  \<^verbatim>\<open>*chunks\<close> and the chunk \<^verbatim>\<open>curChunkPtr\<close> points to. The answer of
  \<^verbatim>\<open>addLine\<close> is not looked at; the size test runs after every line read.
\<close>

fun readLines_loop ::
  "string list \<Rightarrow> nat \<Rightarrow> ('d, 'fv) DataChunk list \<Rightarrow> ('d, 'fv) DataChunk \<Rightarrow>
     ('d, 'fv) DataChunk list \<times> ('d, 'fv) DataChunk" where
  "readLines_loop [] chunkSize chunks curChunk = (chunks, curChunk)"
| "readLines_loop (line # ins) chunkSize chunks curChunk =
     (let curChunk' = snd (addLine line curChunk)
      in if getLineBufferSize curChunk' \<ge> chunkSize
         then readLines_loop ins chunkSize (chunks @ [curChunk']) DataChunk_new
         else readLines_loop ins chunkSize chunks curChunk')"

text \<open>The loop from a fresh current chunk, then the test that seals the last chunk.\<close>

definition readLines ::
  "string list \<Rightarrow> nat \<Rightarrow> ('d, 'fv) DataChunk list \<Rightarrow> ('d, 'fv) DataChunk list" where
  "readLines ins chunkSize chunks =
     (let r = readLines_loop ins chunkSize chunks DataChunk_new
      in if getLineBufferSize (snd r) > 0 then fst r @ [snd r] else fst r)"

text \<open>
  \<^verbatim>\<open>void run()\<close> is the task the thread pool executes: \<^verbatim>\<open>parseLines\<close>, then
  a decrement of the latch, which changes no chunk.
\<close>

definition run :: "('d, 'fv) getRow \<Rightarrow> ('d, 'fv) DataChunk \<Rightarrow> ('d, 'fv) DataChunk" where
  "run getRow c = parseLines getRow c"

text \<open>
  The pool and the latch are declared in \<^verbatim>\<open>Concurrency.h\<close>. A task reads and
  writes the buffers of its own chunk only, and reads the dataset through a const
  reference, so a run of the pool is the order \<open>sched\<close> in which the tasks take
  effect: the entry \<open>i\<close> runs the task of the chunk at index \<open>i\<close>. When
  \<^verbatim>\<open>monitor.wait()\<close> returns, every submitted task has run once: \<open>sched\<close> is
  then a permutation of the indices of the chunks.
\<close>

definition threadManager_run ::
  "('d, 'fv) getRow \<Rightarrow> nat list \<Rightarrow> ('d, 'fv) DataChunk list \<Rightarrow> ('d, 'fv) DataChunk list" where
  "threadManager_run getRow sched chunks =
     fold (\<lambda>i cs. cs[i := run getRow (cs ! i)]) sched chunks"

text \<open>
  \<^verbatim>\<open>readIntoDataChunks\<close>: \<open>num_threads\<close> is \<^verbatim>\<open>FLAGS_num_threads\<close>, and
  \<open>chunks\<close> is the content of the output vector at the call (\<^verbatim>\<open>main\<close> passes an
  empty one). The chunks of the vector are distinct objects.
\<close>

definition readIntoDataChunks ::
  "('d, 'fv) getRow \<Rightarrow> int \<Rightarrow> nat list \<Rightarrow> string list \<Rightarrow> ('d, 'fv) DataChunk list \<Rightarrow> nat \<Rightarrow>
     ('d, 'fv) DataChunk list" where
  "readIntoDataChunks getRow num_threads sched ins chunks chunkSize =
     (let chunks' = readLines ins chunkSize chunks
      in if num_threads > 0 \<and> chunks' \<noteq> []
         then threadManager_run getRow sched chunks'
         else map (parseLines getRow) chunks')"

section \<open>The merge loop of the training driver\<close>

text \<open>
  \<^verbatim>\<open>for (const auto chunkPtr : dataChunks) { chunkPtr->addToDataSet(&ds); }\<close>:
  the count that \<^verbatim>\<open>addToDataSet\<close> returns is dropped, the dataset it leaves is
  kept; a failed \<^verbatim>\<open>CHECK\<close> ends the process.
\<close>

fun main_addToDataSet_loop ::
  "('d, 'fv, 'ds) addVector \<Rightarrow> ('d, 'fv) DataChunk list \<Rightarrow> 'ds \<Rightarrow> error + 'ds" where
  "main_addToDataSet_loop addVector [] ds = Inr ds"
| "main_addToDataSet_loop addVector (chunkPtr # dataChunks) ds =
     (case addToDataSet addVector chunkPtr ds of
        Inl e \<Rightarrow> Inl e
      | Inr r \<Rightarrow> main_addToDataSet_loop addVector dataChunks (snd r))"

section \<open>The evaluation loop of the driver\<close>

text \<open>
  Modelled from the spec: \<^verbatim>\<open>predict\<close> and \<^verbatim>\<open>predict_vec\<close>, which \<^verbatim>\<open>main\<close>
  calls and \<^verbatim>\<open>GbmFun.h\<close> defines, are not among the sources. The spec gives
  the prediction of the first \<open>k\<close> trees as \<open>f_k = f_{k-1} + contribution_of_tree_k\<close>,
  the full prediction as the prediction of all \<open>N\<close> trees, and the prefix
  predictions as the sequence \<open>[f_1, ..., f_N]\<close>, computed in one pass. The
  contribution of a tree at a feature vector is the parameter \<open>eval\<close>; the sum starts
  from zero.
\<close>

definition predict :: "('tree \<Rightarrow> 'fv \<Rightarrow> 'd) \<Rightarrow> 'tree list \<Rightarrow> 'fv \<Rightarrow> 'd::{zero,plus}" where
  "predict eval model fv = foldl (\<lambda>f m. f + eval m fv) 0 model"

fun predict_vec_loop ::
  "('tree \<Rightarrow> 'fv \<Rightarrow> 'd) \<Rightarrow> 'tree list \<Rightarrow> 'fv \<Rightarrow> 'd \<Rightarrow> 'd list \<Rightarrow> ('d::{zero,plus}) \<times> 'd list" where
  "predict_vec_loop eval [] fv f scores = (f, scores)"
| "predict_vec_loop eval (m # ms) fv f scores =
     predict_vec_loop eval ms fv (f + eval m fv) (scores @ [f + eval m fv])"

definition predict_vec ::
  "('tree \<Rightarrow> 'fv \<Rightarrow> 'd) \<Rightarrow> 'tree list \<Rightarrow> 'fv \<Rightarrow> ('d::{zero,plus}) \<times> 'd list" where
  "predict_vec eval model fv = predict_vec_loop eval model fv 0 []"

text \<open>
  The variables of \<^verbatim>\<open>main\<close> that the evaluation loop reads and writes.
  \<^verbatim>\<open>LeastSquareFun\<close> is declared in \<^verbatim>\<open>GbmFun.h\<close>: an accumulator is a state of
  type \<open>'acc\<close>, and \<^verbatim>\<open>accumulateExampleLoss(target, f)\<close> is the parameter
  \<open>accumulateExampleLoss\<close>, from the accumulator, the target and the prediction to
  the accumulator afterwards. \<^verbatim>\<open>fun\<close> is a keyword, so the primary accumulator is
  the field \<open>fun'\<close>. The counter \<^verbatim>\<open>agreeCount\<close> is an \<^verbatim>\<open>int\<close> that only
  ever grows by one; it is unbounded here, so a run of more than \<open>2^31 - 1\<close>
  agreeing rows, where the C++ is undefined, is outside the model. The vector
  \<^verbatim>\<open>scores\<close> is empty before every call of \<^verbatim>\<open>predict_vec\<close> and cleared after
  its use, so it is a local of the loop body.
\<close>

record ('d, 'fv, 'acc) evalState =
  target :: 'd
  score :: 'd
  fvec :: 'fv
  agreeCount :: int
  sumy :: 'd
  sumy2 :: 'd
  funs :: "'acc list"
  fun' :: 'acc

text \<open>
  The state before the first test line. \<^verbatim>\<open>target\<close>, \<^verbatim>\<open>score\<close> and the array
  \<^verbatim>\<open>fvec\<close> are not initialised: their content is a parameter. \<^verbatim>\<open>funs\<close> has
  one default-constructed accumulator for each tree; \<^verbatim>\<open>fun\<close> is the accumulator
  declared at the top of \<^verbatim>\<open>main\<close>, in the state training left it.
\<close>

definition main_evalInit ::
  "'d \<Rightarrow> 'd \<Rightarrow> 'fv \<Rightarrow> 'acc \<Rightarrow> 'acc \<Rightarrow> 'tree list \<Rightarrow> ('d::zero, 'fv, 'acc) evalState" where
  "main_evalInit target0 score0 fvec0 acc0 fun0 model =
     \<lparr>target = target0, score = score0, fvec = fvec0, agreeCount = 0,
      sumy = 0, sumy2 = 0, funs = replicate (length model) acc0, fun' = fun0\<rparr>"

text \<open>
  \<^verbatim>\<open>for (int i = 0; i < model.size(); i++) funs[i].accumulateExampleLoss(target, scores[i])\<close>.
  Neither \<^verbatim>\<open>operator[]\<close> checks its index: a read past the end of either vector is
  the error \<open>OutOfRange\<close>.
\<close>

function main_funs_loop ::
  "('acc \<Rightarrow> 'd \<Rightarrow> 'd \<Rightarrow> 'acc) \<Rightarrow> nat \<Rightarrow> 'd \<Rightarrow> 'd list \<Rightarrow> nat \<Rightarrow> 'acc list \<Rightarrow> error + 'acc list" where
  "main_funs_loop accumulateExampleLoss n t scores i fs =
     (if i < n then
        (if i < length fs \<and> i < length scores
         then main_funs_loop accumulateExampleLoss n t scores (Suc i)
                (fs[i := accumulateExampleLoss (fs ! i) t (scores ! i)])
         else Inl OutOfRange)
      else Inr fs)"
  by pat_completeness auto
termination
  by (relation "measure (\<lambda>(accumulateExampleLoss, n, t, scores, i, fs). n - i)") auto

declare main_funs_loop.simps [simp del]

text \<open>
  \<^verbatim>\<open>ds.getRow(line, &target, fvec, &score)\<close> in the evaluation loop: the
  variables after the call. An accepted line writes the three of them. After a
  rejected line they hold what the parser left there, here the values they had
  before the call: those of the line before, or the uninitialised ones.
\<close>

definition main_getRow ::
  "('d, 'fv) getRow \<Rightarrow> string \<Rightarrow> ('d, 'fv, 'acc) evalState \<Rightarrow> ('d, 'fv, 'acc) evalState" where
  "main_getRow getRow line s =
     (case getRow line of
        Some (t, fv, sc) \<Rightarrow> s\<lparr>target := t, fvec := fv, score := sc\<rparr>
      | None \<Rightarrow> s)"

text \<open>
  The body of \<^verbatim>\<open>while (getline(*is, line))\<close>. The answer of \<^verbatim>\<open>getRow\<close> is
  not looked at: the body runs in full for every line read.
  \<open>find_optimal_num_trees\<close> is the flag \<^verbatim>\<open>FLAGS_find_optimal_num_trees\<close> and
  \<open>tol\<close> is the constant \<^verbatim>\<open>1e-5\<close>. The progress line that is logged every 1000
  examples is output only.
\<close>

definition main_evalLine ::
  "('d, 'fv) getRow \<Rightarrow> ('tree \<Rightarrow> 'fv \<Rightarrow> 'd) \<Rightarrow> 'tree list \<Rightarrow> ('acc \<Rightarrow> 'd \<Rightarrow> 'd \<Rightarrow> 'acc) \<Rightarrow> bool \<Rightarrow> 'd \<Rightarrow>
     string \<Rightarrow> ('d, 'fv, 'acc) evalState \<Rightarrow>
     error + ('d::{zero,plus,times,minus,abs,ord}, 'fv, 'acc) evalState" where
  "main_evalLine getRow eval model accumulateExampleLoss find_optimal_num_trees tol line s =
     (let s1 = main_getRow getRow line s;
          s2 = s1\<lparr>sumy := sumy s1 + target s1, sumy2 := sumy2 s1 + target s1 * target s1\<rparr>;
          r = (if find_optimal_num_trees then
                 (let pv = predict_vec eval model (fvec s2)
                  in case main_funs_loop accumulateExampleLoss (length model) (target s2)
                            (snd pv) 0 (funs s2) of
                       Inl e \<Rightarrow> Inl e
                     | Inr fs \<Rightarrow> Inr (fst pv, s2\<lparr>funs := fs\<rparr>))
               else Inr (predict eval model (fvec s2), s2))
      in case r of
           Inl e \<Rightarrow> Inl e
         | Inr (f, s3) \<Rightarrow>
             Inr (s3\<lparr>fun' := accumulateExampleLoss (fun' s3) (target s3) f,
                     agreeCount := (if \<bar>score s3 - f\<bar> \<le> tol then agreeCount s3 + 1
                                    else agreeCount s3)\<rparr>))"

text \<open>The loop over the lines of one test stream.\<close>

fun main_evalFile ::
  "('d, 'fv) getRow \<Rightarrow> ('tree \<Rightarrow> 'fv \<Rightarrow> 'd) \<Rightarrow> 'tree list \<Rightarrow> ('acc \<Rightarrow> 'd \<Rightarrow> 'd \<Rightarrow> 'acc) \<Rightarrow> bool \<Rightarrow> 'd \<Rightarrow>
     string list \<Rightarrow> ('d, 'fv, 'acc) evalState \<Rightarrow>
     error + ('d::{zero,plus,times,minus,abs,ord}, 'fv, 'acc) evalState" where
  "main_evalFile getRow eval model acc fo tol [] s = Inr s"
| "main_evalFile getRow eval model acc fo tol (line # rest) s =
     (case main_evalLine getRow eval model acc fo tol line s of
        Inl e \<Rightarrow> Inl e
      | Inr s' \<Rightarrow> main_evalFile getRow eval model acc fo tol rest s')"

section \<open>Properties of the data chunk\<close>

text \<open>
  C9. \<open>addLine s\<close> answers false and leaves the chunk as it is, its buffered line
  count included, when \<open>s\<close> is empty; otherwise it appends \<open>s\<close> to the line
  buffer and answers true. The parsed vectors are untouched in both cases.
\<close>

theorem addLine_rejects_empty_appends_otherwise:
  "fst (addLine s c) = (s \<noteq> []) \<and>
   lines (snd (addLine s c)) = (if s = [] then lines c else lines c @ [s]) \<and>
   getLineBufferSize (snd (addLine s c)) =
     (if s = [] then getLineBufferSize c else Suc (getLineBufferSize c)) \<and>
   featureVectors (snd (addLine s c)) = featureVectors c \<and>
   targets (snd (addLine s c)) = targets c"
  by (simp add: addLine_def getLineBufferSize_def)

lemma parseLines_loop_grows:
  "lines (parseLines_loop getRow ls c) = lines c \<and>
   length (featureVectors (parseLines_loop getRow ls c)) =
     length (featureVectors c) + length (filter (\<lambda>l. getRow l \<noteq> None) ls) \<and>
   length (targets (parseLines_loop getRow ls c)) =
     length (targets c) + length (filter (\<lambda>l. getRow l \<noteq> None) ls)"
  by (induction ls arbitrary: c) (auto split: option.splits)

lemma addLines_keep_parsed:
  "featureVectors (foldl (\<lambda>c s. snd (addLine s c)) c0 ss) = featureVectors c0 \<and>
   targets (foldl (\<lambda>c s. snd (addLine s c)) c0 ss) = targets c0"
  by (induction ss arbitrary: c0) (auto simp: addLine_def)

text \<open>
  C6. Take a chunk as the constructor makes it, offer it any sequence of strings
  with \<open>addLine\<close>, and parse it: afterwards there are as many feature vectors as
  targets, and no more of them than buffered lines. Parsing leaves the line buffer
  as it was.
\<close>

theorem parseLines_sizes:
  "(let c = foldl (\<lambda>c s. snd (addLine s c)) DataChunk_new ss;
        p = parseLines getRow c
    in getSize p = length (targets p) \<and> getSize p \<le> getLineBufferSize c \<and>
       getLineBufferSize p = getLineBufferSize c)"
proof -
  define c :: "('a, 'b) DataChunk"
    where "c = foldl (\<lambda>c s. snd (addLine s c)) DataChunk_new ss"
  have fresh: "featureVectors c = []" "targets c = []"
    using addLines_keep_parsed [of "DataChunk_new :: ('a, 'b) DataChunk" ss]
    by (simp_all add: c_def DataChunk_new_def)
  have "length (filter (\<lambda>l. getRow l \<noteq> None) (lines c)) \<le> length (lines c)"
    by (rule length_filter_le)
  with fresh parseLines_loop_grows [of getRow "lines c" c]
  have "getSize (parseLines getRow c) = length (targets (parseLines getRow c)) \<and>
        getSize (parseLines getRow c) \<le> getLineBufferSize c \<and>
        getLineBufferSize (parseLines getRow c) = getLineBufferSize c"
    by (simp add: parseLines_def getSize_def getLineBufferSize_def)
  then show ?thesis unfolding c_def Let_def .
qed

text \<open>
  The loop of \<open>addToDataSet\<close>, entered at index \<open>i\<close> with the dataset that the
  calls on the rows before \<open>i\<close> have left.
\<close>

lemma addToDataSet_loop_first_refusal:
  assumes "i \<le> sz" "sz = length (featureVectors c)"
  shows "\<exists>n. addToDataSet_loop addVector c sz i (offered addVector c i ds) =
            (n, offered addVector c (min (Suc n) sz) ds) \<and>
          i \<le> n \<and> n \<le> sz \<and>
          (\<forall>k. i \<le> k \<and> k < n \<longrightarrow>
             fst (addVector (offered addVector c k ds) (featureVectors c ! k) (targets c ! k))) \<and>
          (n < sz \<longrightarrow>
             \<not> fst (addVector (offered addVector c n ds) (featureVectors c ! n) (targets c ! n)))"
  using assms
proof (induction "sz - i" arbitrary: i)
  case 0
  then have "i = sz" by simp
  then show ?case by (auto simp: addToDataSet_loop.simps intro!: exI [of _ sz])
next
  case (Suc d)
  then have lt: "i < sz" by simp
  show ?case
  proof (cases "fst (addVector (offered addVector c i ds) (featureVectors c ! i) (targets c ! i))")
    case False
    with lt show ?thesis
      by (subst addToDataSet_loop.simps) (auto simp: Let_def min_def intro!: exI [of _ i])
  next
    case True
    from Suc have "d = sz - Suc i" "Suc i \<le> sz" by simp_all
    from Suc.hyps(1) [OF this Suc.prems(2)] obtain n where
      n: "addToDataSet_loop addVector c sz (Suc i) (offered addVector c (Suc i) ds) =
            (n, offered addVector c (min (Suc n) sz) ds)"
         "Suc i \<le> n" "n \<le> sz"
         "\<forall>k. Suc i \<le> k \<and> k < n \<longrightarrow>
             fst (addVector (offered addVector c k ds) (featureVectors c ! k) (targets c ! k))"
         "n < sz \<longrightarrow>
             \<not> fst (addVector (offered addVector c n ds) (featureVectors c ! n) (targets c ! n))"
      by blast
    have "addToDataSet_loop addVector c sz i (offered addVector c i ds) =
            (n, offered addVector c (min (Suc n) sz) ds)"
      using lt True n(1) by (subst addToDataSet_loop.simps) (simp add: Let_def)
    moreover have "\<forall>k. i \<le> k \<and> k < n \<longrightarrow>
             fst (addVector (offered addVector c k ds) (featureVectors c ! k) (targets c ! k))"
      using True n(4) by (metis Suc_leI le_neq_implies_less)
    ultimately show ?thesis using n(2,3,5) by auto
  qed
qed

text \<open>
  C3. For a chunk whose two parsed vectors have the same length, \<open>addToDataSet\<close>
  returns a count \<open>n\<close>, at most the number of parsed rows, such that: the rows of
  index below \<open>n\<close> were offered to \<open>addVector\<close> in index order, each on the dataset
  the calls before it left, and each was taken; if \<open>n\<close> is less than the number
  of parsed rows, the row of index \<open>n\<close> was offered next and refused, and no later
  row was offered; if no row is refused, \<open>n\<close> is the number of parsed rows. The
  dataset is left as the last call made left it.
\<close>

theorem addToDataSet_stops_at_first_refusal:
  assumes "length (featureVectors c) = length (targets c)"
  shows "\<exists>n. addToDataSet addVector c ds =
            Inr (n, offered addVector c (min (Suc n) (getSize c)) ds) \<and>
          n \<le> getSize c \<and>
          (\<forall>k<n. fst (addVector (offered addVector c k ds) (featureVectors c ! k) (targets c ! k))) \<and>
          (n < getSize c \<longrightarrow>
             \<not> fst (addVector (offered addVector c n ds) (featureVectors c ! n) (targets c ! n)))"
  using assms
    addToDataSet_loop_first_refusal [of 0 "length (featureVectors c)" c addVector ds]
  by (auto simp: addToDataSet_def getSize_def)

text \<open>
  A chunk of five parsed rows and a dataset that takes two rows and refuses from
  the third on: the count returned is 2, and the dataset holds the first two rows.
\<close>

theorem addToDataSet_stops_at_first_refusal_witness:
  "length (featureVectors \<lparr>lines = [], featureVectors = [1, 2, 3, 4, 5 :: nat],
                           targets = [10, 20, 30, 40, 50 :: int]\<rparr>) =
   length (targets \<lparr>lines = [], featureVectors = [1, 2, 3, 4, 5 :: nat],
                    targets = [10, 20, 30, 40, 50 :: int]\<rparr>) \<and>
   addToDataSet (\<lambda>ds fv t. if length ds < 2 then (True, ds @ [(fv, t)]) else (False, ds))
     \<lparr>lines = [], featureVectors = [1, 2, 3, 4, 5 :: nat],
      targets = [10, 20, 30, 40, 50 :: int]\<rparr> [] =
   Inr (2, [(1, 10), (2, 20)])"
proof -
  define av :: "(nat \<times> int) list \<Rightarrow> nat \<Rightarrow> int \<Rightarrow> bool \<times> (nat \<times> int) list"
    where "av = (\<lambda>ds fv t. if length ds < 2 then (True, ds @ [(fv, t)]) else (False, ds))"
  define c :: "(int, nat) DataChunk"
    where "c = \<lparr>lines = [], featureVectors = [1, 2, 3, 4, 5], targets = [10, 20, 30, 40, 50]\<rparr>"
  have len: "length (featureVectors c) = length (targets c)" by (simp add: c_def)
  have sz: "getSize c = 5" by (simp add: c_def getSize_def)
  have o1: "offered av c (Suc 0) [] = [(1, 10)]" by (simp add: av_def c_def)
  have o2: "offered av c (Suc (Suc 0)) [] = [(1, 10), (2, 20)]"
    by (simp add: av_def c_def)
  have o3: "offered av c (Suc (Suc (Suc 0))) [] = [(1, 10), (2, 20)]"
    by (simp add: av_def c_def)
  from addToDataSet_stops_at_first_refusal [OF len, of av "[]"] obtain n where
    n: "addToDataSet av c [] = Inr (n, offered av c (min (Suc n) (getSize c)) [])"
       "n \<le> getSize c"
       "\<forall>k<n. fst (av (offered av c k []) (featureVectors c ! k) (targets c ! k))"
       "n < getSize c \<longrightarrow>
          \<not> fst (av (offered av c n []) (featureVectors c ! n) (targets c ! n))"
    by blast
  have "\<not> Suc (Suc 0) < n"
  proof
    assume "Suc (Suc 0) < n"
    with n(3) have "fst (av (offered av c (Suc (Suc 0)) []) (featureVectors c ! Suc (Suc 0))
                           (targets c ! Suc (Suc 0)))"
      by blast
    then show False unfolding o2 by (simp add: av_def)
  qed
  moreover have "n \<noteq> 0"
  proof
    assume "n = 0"
    with n(4) sz have "\<not> fst (av (offered av c 0 []) (featureVectors c ! 0) (targets c ! 0))"
      by simp
    then show False by (simp add: av_def)
  qed
  moreover have "n \<noteq> Suc 0"
  proof
    assume "n = Suc 0"
    with n(4) sz have "\<not> fst (av (offered av c (Suc 0) []) (featureVectors c ! Suc 0)
                                 (targets c ! Suc 0))"
      by simp
    then show False unfolding o1 by (simp add: av_def)
  qed
  ultimately have "n = Suc (Suc 0)" by arith
  with n(1) o3 sz have "addToDataSet av c [] = Inr (2, [(1, 10), (2, 20)])"
    by simp
  with len show ?thesis unfolding av_def c_def by blast
qed

section \<open>Properties of the chunking and of the two parse paths\<close>

text \<open>
  The reading loop, entered with a current chunk that is not yet full: the chunks it
  seals hold \<open>k\<close> lines each, and the current chunk is left with the remainder.
\<close>

lemma readLines_loop_sizes:
  assumes "0 < k" "getLineBufferSize cur < k"
  shows "map getLineBufferSize (fst (readLines_loop ins k chunks cur)) =
           map getLineBufferSize chunks @
           replicate ((getLineBufferSize cur + length (filter (\<lambda>l. l \<noteq> []) ins)) div k) k \<and>
         getLineBufferSize (snd (readLines_loop ins k chunks cur)) =
           (getLineBufferSize cur + length (filter (\<lambda>l. l \<noteq> []) ins)) mod k"
  using assms
proof (induction ins arbitrary: chunks cur)
  case Nil
  then show ?case by simp
next
  case (Cons line ins)
  show ?case
  proof (cases "line = []")
    case True
    then have "snd (addLine line cur) = cur" by (simp add: addLine_def)
    with Cons True show ?thesis by (simp add: Let_def)
  next
    case False
    define cur' where "cur' = snd (addLine line cur)"
    have sz: "getLineBufferSize cur' = Suc (getLineBufferSize cur)"
      using False by (simp add: cur'_def addLine_def getLineBufferSize_def)
    show ?thesis
    proof (cases "Suc (getLineBufferSize cur) < k")
      case True
      with Cons.IH [of cur' chunks] Cons.prems(1) sz False show ?thesis
        by (simp add: Let_def cur'_def [symmetric])
    next
      case False
      with Cons.prems have eq: "Suc (getLineBufferSize cur) = k" by simp
      have new: "getLineBufferSize (DataChunk_new :: ('a, 'b) DataChunk) < k"
        using Cons.prems(1) by (simp add: getLineBufferSize_def DataChunk_new_def)
      have new0: "getLineBufferSize (DataChunk_new :: ('a, 'b) DataChunk) = 0"
        by (simp add: getLineBufferSize_def DataChunk_new_def)
      have d: "(k + m) div k = Suc (m div k)" "(k + m) mod k = m mod k" for m
        using Cons.prems(1) by (simp_all add: div_add_self1)
      define n' where "n' = length (filter (\<lambda>l. l \<noteq> []) ins)"
      have "getLineBufferSize cur + Suc n' = k + n'" using eq by simp
      then have a: "(getLineBufferSize cur + Suc n') div k = Suc (n' div k)"
                   "(getLineBufferSize cur + Suc n') mod k = n' mod k"
        by (simp_all only: d)
      have f: "length (filter (\<lambda>l. l \<noteq> []) (line # ins)) = Suc n'"
        using \<open>line \<noteq> []\<close> by (simp add: n'_def)
      have step: "readLines_loop (line # ins) k chunks cur =
                    readLines_loop ins k (chunks @ [cur']) DataChunk_new"
        using sz eq by (simp add: Let_def cur'_def [symmetric])
      from Cons.IH [of DataChunk_new "chunks @ [cur']", OF Cons.prems(1) new]
      show ?thesis
        unfolding step f a
        by (simp add: new0 sz eq n'_def replicate_app_Cons_same)
    qed
  qed
qed

text \<open>The loop drops the empty lines and keeps the others, in stream order.\<close>

lemma readLines_loop_content:
  "concat (map lines (fst (readLines_loop ins k chunks cur))) @ lines (snd (readLines_loop ins k chunks cur)) =
     concat (map lines chunks) @ lines cur @ filter (\<lambda>l. l \<noteq> []) ins"
proof (induction ins arbitrary: chunks cur)
  case Nil
  then show ?case by simp
next
  case (Cons line ins)
  define cur' where "cur' = snd (addLine line cur)"
  have l: "lines cur' = lines cur @ filter (\<lambda>l. l \<noteq> []) [line]"
    by (simp add: cur'_def addLine_def)
  show ?case
  proof (cases "getLineBufferSize cur' \<ge> k")
    case True
    with Cons.IH [of "chunks @ [cur']" DataChunk_new] l show ?thesis
      by (simp add: Let_def cur'_def [symmetric] DataChunk_new_def)
  next
    case False
    with Cons.IH [of chunks cur'] l show ?thesis
      by (simp add: Let_def cur'_def [symmetric])
  qed
qed

lemma readLines_sizes:
  assumes "0 < k"
  shows "map getLineBufferSize (readLines ins k chunks) =
           map getLineBufferSize chunks @
           replicate (length (filter (\<lambda>l. l \<noteq> []) ins) div k) k @
           (if length (filter (\<lambda>l. l \<noteq> []) ins) mod k = 0 then []
            else [length (filter (\<lambda>l. l \<noteq> []) ins) mod k])"
proof -
  have new: "getLineBufferSize (DataChunk_new :: ('a, 'b) DataChunk) = 0"
    by (simp add: getLineBufferSize_def DataChunk_new_def)
  with assms readLines_loop_sizes [of k "DataChunk_new :: ('a, 'b) DataChunk" ins chunks]
  show ?thesis by (simp add: readLines_def Let_def)
qed

lemma readLines_content:
  "concat (map lines (readLines ins k chunks)) =
     concat (map lines chunks) @ filter (\<lambda>l. l \<noteq> []) ins"
  using readLines_loop_content [of ins k chunks DataChunk_new]
  by (auto simp add: readLines_def Let_def getLineBufferSize_def DataChunk_new_def)

text \<open>Neither parse path touches a line buffer.\<close>

lemma lines_parseLines [simp]: "lines (parseLines getRow c) = lines c"
  by (simp add: parseLines_def parseLines_loop_grows)

lemma map_lines_threadManager_run:
  "map lines (threadManager_run getRow sched cs) = map lines cs"
  unfolding threadManager_run_def
proof (induction sched arbitrary: cs)
  case Nil
  then show ?case by simp
next
  case (Cons i sched)
  have "map lines (cs[i := run getRow (cs ! i)]) = map lines cs"
  proof (cases "i < length cs")
    case True
    then have "(map lines cs)[i := lines (cs ! i)] = map lines cs"
      by (metis list_update_id nth_map)
    then show ?thesis by (simp add: map_update run_def)
  next
    case False
    then have "cs[i := run getRow (cs ! i)] = cs" by (simp add: not_less list_update_beyond)
    then show ?thesis by simp
  qed
  with Cons show ?case by simp
qed

lemma map_lines_readIntoDataChunks:
  "map lines (readIntoDataChunks getRow num_threads sched ins chunks k) =
     map lines (readLines ins k chunks)"
  by (simp add: readIntoDataChunks_def Let_def map_lines_threadManager_run)

lemma sizes_via_lines: "map getLineBufferSize cs = map length (map lines cs)"
  by (simp add: getLineBufferSize_def)


text \<open>
  C5, amended. For a chunk size of at least 1 and every stream, whatever the parse
  path: with \<open>n\<close> the number of non-empty lines of the stream,
  \<open>readIntoDataChunks\<close> called on an empty output vector yields \<open>n div chunkSize\<close>
  chunks of exactly \<open>chunkSize\<close> buffered lines, followed by one chunk of
  \<open>n mod chunkSize\<close> lines when that is not zero. The line buffers, in order, hold
  the non-empty lines of the stream in stream order. So every chunk but the last
  holds exactly \<open>chunkSize\<close> lines, and every chunk holds at least one line and at
  most \<open>chunkSize\<close>.
\<close>

theorem readIntoDataChunks_chunk_sizes:
  assumes "0 < chunkSize"
  shows "(let cs = readIntoDataChunks getRow num_threads sched ins [] chunkSize;
              n = length (filter (\<lambda>l. l \<noteq> []) ins)
          in map getLineBufferSize cs =
               replicate (n div chunkSize) chunkSize @
               (if n mod chunkSize = 0 then [] else [n mod chunkSize]) \<and>
             concat (map lines cs) = filter (\<lambda>l. l \<noteq> []) ins \<and>
             (\<forall>i. Suc i < length cs \<longrightarrow> getLineBufferSize (cs ! i) = chunkSize) \<and>
             (\<forall>c \<in> set cs. 0 < getLineBufferSize c \<and> getLineBufferSize c \<le> chunkSize))"
proof -
  define cs where "cs = readIntoDataChunks getRow num_threads sched ins [] chunkSize"
  define n where "n = length (filter (\<lambda>l. l \<noteq> []) ins)"
  define tl where "tl = (if n mod chunkSize = 0 then [] else [n mod chunkSize])"
  have ml: "map lines cs = map lines (readLines ins chunkSize ([] :: ('a, 'b) DataChunk list))"
    by (simp add: cs_def map_lines_readIntoDataChunks)
  have "map getLineBufferSize cs = map length (map lines cs)"
    by (rule sizes_via_lines)
  also have "\<dots> = map length (map lines (readLines ins chunkSize ([] :: ('a, 'b) DataChunk list)))"
    by (simp only: ml)
  also have "\<dots> = map getLineBufferSize (readLines ins chunkSize ([] :: ('a, 'b) DataChunk list))"
    by (rule sizes_via_lines [symmetric])
  also have "\<dots> = replicate (n div chunkSize) chunkSize @ tl"
    unfolding n_def tl_def
    using readLines_sizes [OF assms, of ins "[] :: ('a, 'b) DataChunk list"] by simp
  finally have sizes: "map getLineBufferSize cs = replicate (n div chunkSize) chunkSize @ tl" .
  have content: "concat (map lines cs) = filter (\<lambda>l. l \<noteq> []) ins"
    using readLines_content [of ins chunkSize "[] :: ('a, 'b) DataChunk list"]
    by (simp add: ml)
  have len: "length cs = n div chunkSize + length tl"
    using arg_cong [OF sizes, of length] by simp
  have full: "getLineBufferSize (cs ! i) = chunkSize" if "Suc i < length cs" for i
  proof -
    from that len have i: "i < n div chunkSize" by (simp add: tl_def split: if_splits)
    from that have "getLineBufferSize (cs ! i) = map getLineBufferSize cs ! i" by simp
    also have "\<dots> = chunkSize" using i by (simp add: sizes nth_append)
    finally show ?thesis .
  qed
  have bounds: "0 < getLineBufferSize c \<and> getLineBufferSize c \<le> chunkSize" if "c \<in> set cs" for c
  proof -
    from that have "getLineBufferSize c \<in> set (map getLineBufferSize cs)" by simp
    then have "getLineBufferSize c \<in> set (replicate (n div chunkSize) chunkSize) \<union> set tl"
      by (simp add: sizes)
    then have "getLineBufferSize c = chunkSize \<or>
               (getLineBufferSize c = n mod chunkSize \<and> n mod chunkSize \<noteq> 0)"
      by (auto simp: tl_def split: if_splits)
    moreover have "n mod chunkSize < chunkSize" using assms by simp
    ultimately show ?thesis using assms by auto
  qed
  from sizes content full bounds show ?thesis
    unfolding Let_def cs_def [symmetric] n_def [symmetric] tl_def by blast
qed

text \<open>
  6000 non-empty lines and the chunk size \<open>CHUNK_SIZE = 2500\<close> of the driver: chunks
  of 2500, 2500 and 1000 lines.
\<close>

theorem readIntoDataChunks_chunk_sizes_witness:
  "0 < CHUNK_SIZE \<and>
   map getLineBufferSize
     (readIntoDataChunks (\<lambda>l. None :: (int \<times> int \<times> int) option) 0 []
        (replicate 6000 ''x'') [] CHUNK_SIZE) = [2500, 2500, 1000]"
proof -
  have n: "length (filter (\<lambda>l. l \<noteq> []) (replicate 6000 ''x'')) = 6000" by simp
  have r: "replicate 2 (2500 :: nat) = [2500, 2500]" by (simp add: numeral_2_eq_2)
  have p: "0 < CHUNK_SIZE" by (simp add: CHUNK_SIZE_def)
  from readIntoDataChunks_chunk_sizes [OF p, of "\<lambda>l. None :: (int \<times> int \<times> int) option" 0 "[]"
      "replicate 6000 ''x''"]
  show ?thesis unfolding Let_def n by (simp add: r CHUNK_SIZE_def)
qed

text \<open>
  With a chunk size of 0 the size test holds after every line read: the stream of
  the two lines \<open>a\<close> and \<open>b\<close> yields two chunks of one line each, and the first
  of them, which is not the last, does not hold \<open>chunkSize = 0\<close> lines.
\<close>

theorem readIntoDataChunks_chunkSize_0_counterexample:
  "map getLineBufferSize
     (readIntoDataChunks (\<lambda>l. None :: (int \<times> int \<times> int) option) 0 [] [''a'', ''b''] [] 0) = [1, 1] \<and>
   getLineBufferSize
     (readIntoDataChunks (\<lambda>l. None :: (int \<times> int \<times> int) option) 0 [] [''a'', ''b''] [] 0 ! 0) \<noteq> 0"
  by (simp add: readIntoDataChunks_def readLines_def addLine_def getLineBufferSize_def
      DataChunk_new_def Let_def parseLines_def)

text \<open>
  A run of the pool in which no task runs twice: a chunk whose task is in the
  schedule has been parsed once, and the others are as they were.
\<close>

lemma threadManager_run_nth:
  assumes "distinct sched"
  shows "length (threadManager_run getRow sched cs) = length cs \<and>
         (\<forall>j < length cs. threadManager_run getRow sched cs ! j =
            (if j \<in> set sched then run getRow (cs ! j) else cs ! j))"
  using assms unfolding threadManager_run_def
proof (induction sched arbitrary: cs)
  case Nil
  then show ?case by simp
next
  case (Cons i sched)
  let ?cs1 = "cs[i := run getRow (cs ! i)]"
  from Cons.prems have d: "distinct sched" and ni: "i \<notin> set sched" by simp_all
  note ih = Cons.IH [OF d, of ?cs1]
  show ?case
  proof (intro conjI allI impI)
    show "length (fold (\<lambda>i cs. cs[i := run getRow (cs ! i)]) (i # sched) cs) = length cs"
      using ih by simp
  next
    fix j assume j: "j < length cs"
    with ih have "fold (\<lambda>i cs. cs[i := run getRow (cs ! i)]) sched ?cs1 ! j =
                    (if j \<in> set sched then run getRow (?cs1 ! j) else ?cs1 ! j)"
      by simp
    then show "fold (\<lambda>i cs. cs[i := run getRow (cs ! i)]) (i # sched) cs ! j =
                 (if j \<in> set (i # sched) then run getRow (cs ! j) else cs ! j)"
      using j ni by (cases "j = i") auto
  qed
qed

lemma threadManager_run_all:
  assumes "distinct sched" "set sched = {..<length cs}"
  shows "threadManager_run getRow sched cs = map (parseLines getRow) cs"
proof (rule nth_equalityI)
  show "length (threadManager_run getRow sched cs) = length (map (parseLines getRow) cs)"
    using threadManager_run_nth [OF assms(1), of getRow cs] by simp
next
  fix j assume "j < length (threadManager_run getRow sched cs)"
  then have j: "j < length cs" using threadManager_run_nth [OF assms(1), of getRow cs] by simp
  with assms(2) have "j \<in> set sched" by simp
  with j threadManager_run_nth [OF assms(1), of getRow cs]
  show "threadManager_run getRow sched cs ! j = map (parseLines getRow) cs ! j"
    by (simp add: run_def)
qed

text \<open>
  C1. Take any stream, any chunk size and any content of the output vector. With a
  positive worker count, and the pool having run the task of every chunk once, in
  whatever order, \<open>readIntoDataChunks\<close> leaves the chunk list that the sequential
  path (worker count 0) leaves: the same line buffers, feature vectors and targets,
  in the same order. Hence the merge loop of the driver, run on either list from
  the same dataset, leaves the same dataset.
\<close>

theorem readIntoDataChunks_parallel_eq_sequential:
  assumes "0 < num_threads"
      and "distinct sched"
      and "set sched = {..<length (readLines ins chunkSize chunks)}"
  shows "readIntoDataChunks getRow num_threads sched ins chunks chunkSize =
           readIntoDataChunks getRow 0 sched' ins chunks chunkSize \<and>
         main_addToDataSet_loop addVector
             (readIntoDataChunks getRow num_threads sched ins chunks chunkSize) ds =
           main_addToDataSet_loop addVector
             (readIntoDataChunks getRow 0 sched' ins chunks chunkSize) ds"
proof -
  have "readIntoDataChunks getRow num_threads sched ins chunks chunkSize =
          map (parseLines getRow) (readLines ins chunkSize chunks)"
    using assms threadManager_run_all [OF assms(2,3), of getRow]
    by (simp add: readIntoDataChunks_def Let_def)
  moreover have "readIntoDataChunks getRow 0 sched' ins chunks chunkSize =
          map (parseLines getRow) (readLines ins chunkSize chunks)"
    by (simp add: readIntoDataChunks_def Let_def)
  ultimately show ?thesis by simp
qed

theorem readIntoDataChunks_parallel_eq_sequential_witness:
  "(0 :: int) < 8 \<and> distinct [1, 0 :: nat] \<and>
   set [1, 0 :: nat] =
     {..<length (readLines [''a'', ''bad'', '''', ''bcd''] 2 ([] :: (int, string) DataChunk list))} \<and>
   readIntoDataChunks (\<lambda>l. if l = ''bad'' then None else Some (int (length l), l, 0 :: int)) 8 [1, 0]
       [''a'', ''bad'', '''', ''bcd''] [] 2 =
     readIntoDataChunks (\<lambda>l. if l = ''bad'' then None else Some (int (length l), l, 0 :: int)) 0 []
       [''a'', ''bad'', '''', ''bcd''] [] 2 \<and>
   readIntoDataChunks (\<lambda>l. if l = ''bad'' then None else Some (int (length l), l, 0 :: int)) 8 [1, 0]
       [''a'', ''bad'', '''', ''bcd''] [] 2 =
     [\<lparr>lines = [''a'', ''bad''], featureVectors = [''a''], targets = [1]\<rparr>,
      \<lparr>lines = [''bcd''], featureVectors = [''bcd''], targets = [3]\<rparr>]"
proof -
  define g :: "(int, string) getRow"
    where "g = (\<lambda>l. if l = ''bad'' then None else Some (int (length l), l, 0))"
  define ins where "ins = [''a'', ''bad'', '''', ''bcd'']"
  have rl: "readLines ins 2 ([] :: (int, string) DataChunk list) =
          [\<lparr>lines = [''a'', ''bad''], featureVectors = [], targets = []\<rparr>,
           \<lparr>lines = [''bcd''], featureVectors = [], targets = []\<rparr>]"
    by (simp add: ins_def readLines_def addLine_def getLineBufferSize_def DataChunk_new_def Let_def)
  have p: "(0 :: int) < 8" by simp
  have d: "distinct [1, 0 :: nat]" by simp
  have s: "set [1, 0 :: nat] = {..<length (readLines ins 2 ([] :: (int, string) DataChunk list))}"
    unfolding rl by auto
  have seq: "readIntoDataChunks g 0 [] ins [] 2 =
     [\<lparr>lines = [''a'', ''bad''], featureVectors = [''a''], targets = [1]\<rparr>,
      \<lparr>lines = [''bcd''], featureVectors = [''bcd''], targets = [3]\<rparr>]"
    unfolding readIntoDataChunks_def rl by (simp add: parseLines_def g_def)
  from readIntoDataChunks_parallel_eq_sequential [OF p d s, of g "[]"]
  have par: "readIntoDataChunks g 8 [1, 0] ins [] 2 = readIntoDataChunks g 0 [] ins [] 2"
    by (rule conjunct1)
  from p d s par seq show ?thesis unfolding g_def ins_def by simp
qed

section \<open>Properties of the merge loop of the driver\<close>

lemma main_addToDataSet_loop_append:
  "main_addToDataSet_loop addVector (cs1 @ cs2) ds =
     (case main_addToDataSet_loop addVector cs1 ds of
        Inl e \<Rightarrow> Inl e
      | Inr ds1 \<Rightarrow> main_addToDataSet_loop addVector cs2 ds1)"
  by (induction cs1 arbitrary: ds) (auto split: sum.splits)

text \<open>
  C7. In the merge loop of the driver, let a chunk \<open>c\<close> be merged only in part:
  \<open>addToDataSet\<close> returns a count \<open>n\<close> below the number of its parsed rows. The
  loop does not look at \<open>n\<close>: it goes on with the chunks after \<open>c\<close>, in their
  order, from the dataset the partial merge left. It calls \<open>addToDataSet\<close> on the
  next chunk \<open>c'\<close> on that dataset, and on the chunks after \<open>c'\<close> in the same way.
\<close>

theorem main_addToDataSet_loop_continues_after_refusal:
  assumes "main_addToDataSet_loop addVector cs1 ds = Inr ds1"
      and "addToDataSet addVector c ds1 = Inr (n, ds2)"
      and "n < getSize c"
  shows "main_addToDataSet_loop addVector (cs1 @ c # cs2) ds =
           main_addToDataSet_loop addVector cs2 ds2 \<and>
         main_addToDataSet_loop addVector (cs1 @ c # c' # cs3) ds =
           (case addToDataSet addVector c' ds2 of
              Inl e \<Rightarrow> Inl e
            | Inr r \<Rightarrow> main_addToDataSet_loop addVector cs3 (snd r))"
  using assms by (simp add: main_addToDataSet_loop_append)

text \<open>
  A dataset that refuses the rows of negative target and takes the others. The merge
  of the first chunk stops at its second row, with a count of 1 out of 3; the row of
  the second chunk is merged all the same.
\<close>

theorem main_addToDataSet_loop_continues_after_refusal_witness:
  "main_addToDataSet_loop (\<lambda>ds fv t. if t < 0 then (False, ds) else (True, ds @ [(fv, t)]))
       [] [] = Inr ([] :: (int \<times> int) list) \<and>
   addToDataSet (\<lambda>ds fv t. if t < 0 then (False, ds) else (True, ds @ [(fv, t)]))
       \<lparr>lines = [], featureVectors = [1, 2, 3 :: int], targets = [10, - 1, 30 :: int]\<rparr> [] =
     Inr (1, [(1, 10)]) \<and>
   1 < getSize \<lparr>lines = [], featureVectors = [1, 2, 3 :: int], targets = [10, - 1, 30 :: int]\<rparr> \<and>
   main_addToDataSet_loop (\<lambda>ds fv t. if t < 0 then (False, ds) else (True, ds @ [(fv, t)]))
       [\<lparr>lines = [], featureVectors = [1, 2, 3 :: int], targets = [10, - 1, 30 :: int]\<rparr>,
        \<lparr>lines = [], featureVectors = [4], targets = [40]\<rparr>] [] =
     Inr [(1, 10), (4, 40)]"
proof -
  define av :: "(int \<times> int) list \<Rightarrow> int \<Rightarrow> int \<Rightarrow> bool \<times> (int \<times> int) list"
    where "av = (\<lambda>ds fv t. if t < 0 then (False, ds) else (True, ds @ [(fv, t)]))"
  define c :: "(int, int) DataChunk"
    where "c = \<lparr>lines = [], featureVectors = [1, 2, 3], targets = [10, - 1, 30]\<rparr>"
  define c' :: "(int, int) DataChunk"
    where "c' = \<lparr>lines = [], featureVectors = [4], targets = [40]\<rparr>"
  have a1: "main_addToDataSet_loop av [] [] = Inr []" by simp
  have a2: "addToDataSet av c [] = Inr (1, [(1, 10)])"
    by (simp add: addToDataSet_def addToDataSet_loop.simps c_def av_def)
  have a3: "1 < getSize c" by (simp add: getSize_def c_def)
  have a4: "addToDataSet av c' [(1, 10)] = Inr (1, [(1, 10), (4, 40)])"
    by (simp add: addToDataSet_def addToDataSet_loop.simps c'_def av_def)
  from main_addToDataSet_loop_continues_after_refusal [OF a1 a2 a3, of "[c']" c' "[]"]
  have "main_addToDataSet_loop av [c, c'] [] = Inr [(1, 10), (4, 40)]"
    by (simp add: a4)
  with a1 a2 a3 show ?thesis unfolding av_def c_def c'_def by simp
qed

section \<open>Properties of the evaluation loop\<close>

text \<open>
  The one pass of \<open>predict_vec\<close> returns the full prediction, and its \<open>k\<close>-th score
  is the prediction of the ensemble cut after \<open>k\<close> trees.
\<close>

lemma predict_vec_loop_prefixes:
  "predict_vec_loop eval ms fv f scores =
     (foldl (\<lambda>f m. f + eval m fv) f ms,
      scores @ map (\<lambda>k. foldl (\<lambda>f m. f + eval m fv) f (take (Suc k) ms)) [0..<length ms])"
proof (induction ms arbitrary: f scores)
  case Nil
  then show ?case by simp
next
  case (Cons m ms)
  show ?case
    by (simp add: Cons.IH map_upt_Suc del: upt_Suc)
qed

lemma predict_vec_prefixes:
  "fst (predict_vec eval model fv) = predict eval model fv \<and>
   length (snd (predict_vec eval model fv)) = length model \<and>
   (\<forall>k < length model.
      snd (predict_vec eval model fv) ! k = predict eval (take (Suc k) model) fv)"
  by (simp add: predict_vec_def predict_def predict_vec_loop_prefixes)

lemma main_funs_loop_accumulates:
  assumes "i \<le> n" "length fs = n" "length scores = n"
  shows "\<exists>fs'. main_funs_loop acc n t scores i fs = Inr fs' \<and> length fs' = n \<and>
           (\<forall>k < n. fs' ! k = (if i \<le> k then acc (fs ! k) t (scores ! k) else fs ! k))"
  using assms
proof (induction "n - i" arbitrary: i fs)
  case 0
  then show ?case by (simp add: main_funs_loop.simps)
next
  case (Suc d)
  then have lt: "i < n" by simp
  let ?fs1 = "fs[i := acc (fs ! i) t (scores ! i)]"
  from Suc have "d = n - Suc i" "Suc i \<le> n" "length ?fs1 = n" by simp_all
  from Suc.hyps(1) [OF this Suc.prems(3)] obtain fs' where
    fs': "main_funs_loop acc n t scores (Suc i) ?fs1 = Inr fs'" "length fs' = n"
         "\<forall>k < n. fs' ! k = (if Suc i \<le> k then acc (?fs1 ! k) t (scores ! k) else ?fs1 ! k)"
    by blast
  have "main_funs_loop acc n t scores i fs = Inr fs'"
    using lt Suc.prems fs'(1) by (subst main_funs_loop.simps) simp
  moreover have "fs' ! k = (if i \<le> k then acc (fs ! k) t (scores ! k) else fs ! k)"
    if "k < n" for k
    using fs'(3) that Suc.prems(2) by (cases "k = i") auto
  ultimately show ?case using fs'(2) by blast
qed


text \<open>
  One run of the loop body from a state with one prefix accumulator for each tree
  (as needed when the prefix mode is on): it ends without an error, and the state is
  changed as follows.
\<close>

lemma main_evalLine_step:
  assumes "fo \<longrightarrow> length (funs s) = length model"
  shows "\<exists>s'. main_evalLine getRow eval model acc fo tol line s = Inr s' \<and>
           target s' = target (main_getRow getRow line s) \<and>
           fvec s' = fvec (main_getRow getRow line s) \<and>
           score s' = score (main_getRow getRow line s) \<and>
           sumy s' = sumy s + target (main_getRow getRow line s) \<and>
           sumy2 s' = sumy2 s +
             target (main_getRow getRow line s) * target (main_getRow getRow line s) \<and>
           length (funs s') = length (funs s) \<and>
           (\<forall>k < length (funs s). funs s' ! k =
              (if fo then acc (funs s ! k) (target (main_getRow getRow line s))
                           (predict eval (take (Suc k) model) (fvec (main_getRow getRow line s)))
               else funs s ! k)) \<and>
           fun' s' = acc (fun' s) (target (main_getRow getRow line s))
                       (predict eval model (fvec (main_getRow getRow line s))) \<and>
           agreeCount s' =
             (if \<bar>score (main_getRow getRow line s) -
                   predict eval model (fvec (main_getRow getRow line s))\<bar> \<le> tol
              then agreeCount s + 1 else agreeCount s)"
proof -
  define s1 where "s1 = main_getRow getRow line s"
  have keep: "sumy s1 = sumy s" "sumy2 s1 = sumy2 s" "funs s1 = funs s" "fun' s1 = fun' s"
             "agreeCount s1 = agreeCount s"
    by (simp_all add: s1_def main_getRow_def split: option.splits)
  show ?thesis
  proof (cases fo)
    case False
    then show ?thesis
      unfolding s1_def [symmetric]
      by (simp add: main_evalLine_def Let_def s1_def [symmetric] keep)
  next
    case True
    with assms have len: "length (funs s1) = length model" by (simp add: keep)
    note pv = predict_vec_prefixes [of eval model "fvec s1"]
    from main_funs_loop_accumulates [of 0 "length model" "funs s1"
        "snd (predict_vec eval model (fvec s1))" acc "target s1"] len pv
    obtain fs' where
      fs': "main_funs_loop acc (length model) (target s1)
              (snd (predict_vec eval model (fvec s1))) 0 (funs s1) = Inr fs'"
           "length fs' = length model"
           "\<forall>k < length model. fs' ! k =
              acc (funs s1 ! k) (target s1) (snd (predict_vec eval model (fvec s1)) ! k)"
      by auto
    from fs'(3) pv have nth: "\<forall>k < length model. fs' ! k =
              acc (funs s1 ! k) (target s1) (predict eval (take (Suc k) model) (fvec s1))"
      by simp
    from True fs'(1,2) nth pv len show ?thesis
      unfolding s1_def [symmetric]
      by (simp add: main_evalLine_def Let_def s1_def [symmetric] keep)
  qed
qed


text \<open>
  C4. Take a test line that the row parser accepts, with target \<open>t\<close> and feature
  vector \<open>fv\<close>, and a state with one prefix accumulator for each of the \<open>N\<close>
  trees. With the optimal-tree-count mode on, the loop body ends without an error;
  for every \<open>k\<close> from 1 to \<open>N\<close> the \<open>k\<close>-th prefix accumulator has
  received \<open>(t, f_k)\<close>, where \<open>f_k\<close> is the \<open>k\<close>-th score of the one pass of
  \<open>predict_vec\<close>; the primary accumulator has received \<open>(t, f)\<close> with \<open>f\<close> the
  value \<open>predict_vec\<close> returns. The pass yields \<open>N\<close> scores, \<open>f_k\<close> is the
  prediction of the first \<open>k\<close> trees, and \<open>f\<close> is the full prediction. With the
  mode off, the prefix accumulators are left as they were and the primary
  accumulator has received \<open>(t, f)\<close> with \<open>f\<close> the full prediction.
\<close>

theorem main_evalLine_prefix_accumulators:
  assumes "getRow line = Some (t, fv, sc)"
      and "length (funs s) = length model"
  shows "(\<exists>s'. main_evalLine getRow eval model acc True tol line s = Inr s' \<and>
            length (funs s') = length model \<and>
            (\<forall>k < length model.
               funs s' ! k = acc (funs s ! k) t (snd (predict_vec eval model fv) ! k)) \<and>
            fun' s' = acc (fun' s) t (fst (predict_vec eval model fv))) \<and>
         length (snd (predict_vec eval model fv)) = length model \<and>
         (\<forall>k < length model.
            snd (predict_vec eval model fv) ! k = predict eval (take (Suc k) model) fv) \<and>
         fst (predict_vec eval model fv) = predict eval model fv \<and>
         (\<exists>s'. main_evalLine getRow eval model acc False tol line s = Inr s' \<and>
            funs s' = funs s \<and>
            fun' s' = acc (fun' s) t (predict eval model fv))"
proof -
  have row: "target (main_getRow getRow line s) = t" "fvec (main_getRow getRow line s) = fv"
    using assms(1) by (simp_all add: main_getRow_def)
  note pv = predict_vec_prefixes [of eval model fv]
  from assms(2) have "True \<longrightarrow> length (funs s) = length model" by simp
  from main_evalLine_step [OF this, of getRow eval acc tol line] obtain s1 where
    s1: "main_evalLine getRow eval model acc True tol line s = Inr s1"
        "length (funs s1) = length (funs s)"
        "\<forall>k < length (funs s). funs s1 ! k =
           acc (funs s ! k) t (predict eval (take (Suc k) model) fv)"
        "fun' s1 = acc (fun' s) t (predict eval model fv)"
    unfolding row by auto
  have on: "\<exists>s'. main_evalLine getRow eval model acc True tol line s = Inr s' \<and>
            length (funs s') = length model \<and>
            (\<forall>k < length model.
               funs s' ! k = acc (funs s ! k) t (snd (predict_vec eval model fv) ! k)) \<and>
            fun' s' = acc (fun' s) t (fst (predict_vec eval model fv))"
    using s1 assms(2) pv by auto
  have "False \<longrightarrow> length (funs s) = length model" by simp
  from main_evalLine_step [OF this, of getRow eval acc tol line] obtain s2 where
    s2: "main_evalLine getRow eval model acc False tol line s = Inr s2"
        "length (funs s2) = length (funs s)"
        "\<forall>k < length (funs s). funs s2 ! k = funs s ! k"
        "fun' s2 = acc (fun' s) t (predict eval model fv)"
    unfolding row by auto
  from s2(2,3) have "funs s2 = funs s" by (simp add: list_eq_iff_nth_eq)
  with s2 have off: "\<exists>s'. main_evalLine getRow eval model acc False tol line s = Inr s' \<and>
            funs s' = funs s \<and> fun' s' = acc (fun' s) t (predict eval model fv)"
    by blast
  from on off pv show ?thesis by blast
qed

text \<open>
  Three trees that contribute 1, 2 and 3 times the feature, a row of target 10 and
  feature 2, and accumulators that record what they receive: the prefix accumulators
  receive the predictions 2, 6 and 12, and the primary accumulator receives 12.
\<close>

theorem main_evalLine_prefix_accumulators_witness:
  "(\<lambda>l. if l = ''row'' then Some (10 :: real, 2 :: real, 12 :: real) else None) ''row'' =
     Some (10, 2, 12) \<and>
   length (funs (main_evalInit (0 :: real) 0 (0 :: real) ([] :: (real \<times> real) list) []
                   [1, 2, 3 :: real])) = length [1, 2, 3 :: real] \<and>
   (\<exists>s'. main_evalLine
            (\<lambda>l. if l = ''row'' then Some (10 :: real, 2 :: real, 12 :: real) else None)
            (\<lambda>m fv. m * fv) [1, 2, 3 :: real] (\<lambda>a t f. a @ [(t, f)]) True (1 / 100000) ''row''
            (main_evalInit 0 0 0 [] [] [1, 2, 3 :: real]) = Inr s' \<and>
          funs s' ! 0 = [(10, 2)] \<and> funs s' ! 1 = [(10, 6)] \<and> funs s' ! 2 = [(10, 12)] \<and>
          fun' s' = [(10, 12)])"
proof -
  define g :: "(real, real) getRow"
    where "g = (\<lambda>l. if l = ''row'' then Some (10, 2, 12) else None)"
  define ev :: "real \<Rightarrow> real \<Rightarrow> real" where "ev = (\<lambda>m fv. m * fv)"
  define lg :: "(real \<times> real) list \<Rightarrow> real \<Rightarrow> real \<Rightarrow> (real \<times> real) list"
    where "lg = (\<lambda>a t f. a @ [(t, f)])"
  define s0 :: "(real, real, (real \<times> real) list) evalState"
    where "s0 = main_evalInit 0 0 0 [] [] [1, 2, 3 :: real]"
  have h1: "g ''row'' = Some (10, 2, 12)" by (simp add: g_def)
  have h2: "length (funs s0) = length [1, 2, 3 :: real]" by (simp add: s0_def main_evalInit_def)
  have pv: "predict_vec ev [1, 2, 3] 2 = (12, [2, 6, 12])"
    by (simp add: predict_vec_def ev_def)
  have f0: "funs s0 ! 0 = []" "funs s0 ! 1 = []" "funs s0 ! 2 = []" "fun' s0 = []"
    by (simp_all add: s0_def main_evalInit_def numeral_3_eq_3 nth_Cons')
  from main_evalLine_prefix_accumulators [where getRow = g and line = "''row''" and s = s0
      and model = "[1, 2, 3]" and eval = ev and acc = lg and tol = "1 / 100000", OF h1 h2]
  obtain s' where
    s': "main_evalLine g ev [1, 2, 3] lg True (1 / 100000) ''row'' s0 = Inr s'"
        "\<forall>k < length [1, 2, 3 :: real].
           funs s' ! k = lg (funs s0 ! k) 10 (snd (predict_vec ev [1, 2, 3] 2) ! k)"
        "fun' s' = lg (fun' s0) 10 (fst (predict_vec ev [1, 2, 3] 2))"
    by blast
  from s'(2) have "funs s' ! 0 = lg (funs s0 ! 0) 10 (snd (predict_vec ev [1, 2, 3] 2) ! 0)"
    "funs s' ! 1 = lg (funs s0 ! 1) 10 (snd (predict_vec ev [1, 2, 3] 2) ! 1)"
    "funs s' ! 2 = lg (funs s0 ! 2) 10 (snd (predict_vec ev [1, 2, 3] 2) ! 2)"
    by simp_all
  then have "funs s' ! 0 = [(10, 2)]" "funs s' ! 1 = [(10, 6)]" "funs s' ! 2 = [(10, 12)]"
    unfolding pv f0 by (simp_all add: lg_def)
  moreover from s'(3) have "fun' s' = [(10, 12)]" unfolding pv f0 by (simp add: lg_def)
  ultimately show ?thesis
    using h1 h2 s'(1) unfolding g_def ev_def lg_def s0_def by blast
qed

text \<open>
  A line that the row parser rejects still goes through the whole loop body, with
  the target, the feature vector and the logged score the variables hold.
\<close>

lemma main_evalLine_rejected_line:
  assumes "getRow line = None"
      and "fo \<longrightarrow> length (funs s) = length model"
  shows "\<exists>s'. main_evalLine getRow eval model acc fo tol line s = Inr s' \<and>
           sumy s' = sumy s + target s \<and>
           sumy2 s' = sumy2 s + target s * target s \<and>
           fun' s' = acc (fun' s) (target s) (predict eval model (fvec s)) \<and>
           agreeCount s' =
             (if \<bar>score s - predict eval model (fvec s)\<bar> \<le> tol
              then agreeCount s + 1 else agreeCount s)"
proof -
  from assms(1) have "main_getRow getRow line s = s" by (simp add: main_getRow_def)
  with main_evalLine_step [OF assms(2), of getRow eval acc tol line] show ?thesis
    by auto
qed

text \<open>
  C2. A test stream of a well-formed row (target 2, logged score 5) followed by a
  line the row parser rejects, a model of one tree that predicts 5, and accumulators
  that record what they receive. \<open>parseLines\<close> on a chunk of the two lines keeps
  the row and drops the rejected line. The evaluation loop does not: the primary
  accumulator has received two pairs, the second for the rejected line with the
  target of the row before it; the sums of the targets have counted the target
  twice; and the rejected line has been counted as an agreement.
\<close>

theorem main_evalFile_accumulates_rejected_line:
  "parseLines (\<lambda>l. if l = ''row'' then Some (2 :: real, 7 :: real, 5 :: real) else None)
     \<lparr>lines = [''row'', ''oops''], featureVectors = [], targets = []\<rparr> =
     \<lparr>lines = [''row'', ''oops''], featureVectors = [7], targets = [2]\<rparr> \<and>
   main_evalFile (\<lambda>l. if l = ''row'' then Some (2 :: real, 7 :: real, 5 :: real) else None)
     (\<lambda>m fv. m) [5 :: real] (\<lambda>a t f. a @ [(t, f)]) False (1 / 100000) [''row'', ''oops'']
     (main_evalInit 0 0 0 [] [] [5 :: real]) =
     Inr \<lparr>target = 2, score = 5, fvec = 7, agreeCount = 2, sumy = 4, sumy2 = 8,
          funs = [[]], fun' = [(2, 5), (2, 5)]\<rparr>"
  by (simp add: parseLines_def main_evalLine_def main_getRow_def main_evalInit_def
      predict_def Let_def)

end
